theory Spec2Isabelle
  imports Main "HOL-Library.Sublist" "HOL-Library.Multiset"
begin

section \<open>Strings as the converter sees them\<close>

text \<open>
  The converter (\<^verbatim>\<open>MdToDocxConverter\<close> in \<^verbatim>\<open>converter.ts\<close>) works on JavaScript
  strings. A string is modelled as a \<^typ>\<open>string\<close>, one list element per code unit, so
  that \<^verbatim>\<open>s.length\<close> is \<^term>\<open>length s\<close> and an index into the string is an index into
  the list. Only code units below 256 are represented.
\<close>

text \<open>\<^verbatim>\<open>\d\<close> of a regular expression without the unicode flag: the ASCII digits.\<close>

definition isDigit :: "char \<Rightarrow> bool" where
  "isDigit c = (c \<in> set ''0123456789'')"

text \<open>
  White space and line terminators as \<^verbatim>\<open>String.prototype.trim\<close> and \<^verbatim>\<open>parseInt\<close> skip
  them: TAB, LF, VT, FF, CR, SP and NBSP (the ones below 256).
\<close>

definition isWhiteSpace :: "char \<Rightarrow> bool" where
  "isWhiteSpace c = (of_char c \<in> {9, 10, 11, 12, 13, 32, 160 :: nat})"

definition trim :: "string \<Rightarrow> string" where
  "trim s = rev (dropWhile isWhiteSpace (rev (dropWhile isWhiteSpace s)))"

text \<open>
  \<^verbatim>\<open>s.substring(a, b)\<close>: both arguments are clamped to \<open>[0, length s]\<close> and swapped when
  \<open>a > b\<close>; \<^verbatim>\<open>s.substring(a)\<close> runs to the end of the string.
\<close>

definition clampIndex :: "string \<Rightarrow> int \<Rightarrow> nat" where
  "clampIndex s i = min (nat i) (length s)"

definition substring :: "string \<Rightarrow> int \<Rightarrow> int \<Rightarrow> string" where
  "substring s a b =
     (let lo = min (clampIndex s a) (clampIndex s b);
          hi = max (clampIndex s a) (clampIndex s b)
      in take (hi - lo) (drop lo s))"

definition substringFrom :: "string \<Rightarrow> int \<Rightarrow> string" where
  "substringFrom s a = drop (clampIndex s a) s"

text \<open>\<^verbatim>\<open>parts.join(sep)\<close> on an array of strings.\<close>

fun join :: "string \<Rightarrow> string list \<Rightarrow> string" where
  "join sep [] = []"
| "join sep [x] = x"
| "join sep (x # y # ys) = x @ sep @ join sep (y # ys)"

section \<open>Numbers read from file names\<close>

definition digitVal :: "char \<Rightarrow> nat" where
  "digitVal c = of_char c - 48"

definition decimal :: "string \<Rightarrow> nat" where
  "decimal ds = foldl (\<lambda>n c. 10 * n + digitVal c) 0 ds"

fun bitlen :: "nat \<Rightarrow> nat" where
  "bitlen n = (if n = 0 then 0 else Suc (bitlen (n div 2)))"

declare bitlen.simps [simp del]

text \<open>
  A JavaScript number is an IEEE double. \<open>toDouble n\<close> is the double nearest to the
  integer \<open>n\<close>, ties to even: every integer below \<open>2 ^ 53\<close> is its own double, a larger
  one keeps its 53 leading bits, and what rounds to \<open>2 ^ 1024\<close> or more is \<^verbatim>\<open>Infinity\<close>,
  written here as \<open>2 ^ 1024\<close> (above every finite double, equal to itself).
\<close>

definition toDouble :: "nat \<Rightarrow> nat" where
  "toDouble n =
     (if n < 2 ^ 53 then n
      else let e = bitlen n - 53;
               q = n div 2 ^ e;
               r = n mod 2 ^ e;
               h = 2 ^ (e - 1);
               q' = (if h < r \<or> (r = h \<and> odd q) then q + 1 else q);
               v = q' * 2 ^ e
           in if 2 ^ 1024 \<le> v then 2 ^ 1024 else v)"

text \<open>
  \<^verbatim>\<open>parseInt(s, 10)\<close>: skip leading white space, read an optional sign, then the longest
  run of digits; no digit there gives \<^verbatim>\<open>NaN\<close>, which is \<open>None\<close>.
\<close>

definition parseInt :: "string \<Rightarrow> int option" where
  "parseInt s =
     (let s1 = dropWhile isWhiteSpace s;
          neg = (s1 \<noteq> [] \<and> hd s1 = CHR ''-'');
          s2 = (if s1 \<noteq> [] \<and> (hd s1 = CHR ''-'' \<or> hd s1 = CHR ''+'') then tl s1 else s1);
          ds = takeWhile isDigit s2
      in if ds = [] then None
         else Some ((if neg then - 1 else 1) * int (toDouble (decimal ds))))"

section \<open>The natural-sort comparator\<close>

text \<open>
  \<^verbatim>\<open>a.match(/(\d+)|(\D+)/g) || []\<close>: the maximal runs of digits and of non-digits of
  \<open>a\<close>, left to right.
\<close>

function matchRuns :: "string \<Rightarrow> string list" where
  "matchRuns [] = []"
| "matchRuns (c # cs) =
     (if isDigit c
      then (c # takeWhile isDigit cs) # matchRuns (dropWhile isDigit cs)
      else (c # takeWhile (\<lambda>x. \<not> isDigit x) cs) # matchRuns (dropWhile (\<lambda>x. \<not> isDigit x) cs))"
  by pat_completeness auto
termination
  by (relation "measure length") (auto simp: length_dropWhile_le less_Suc_eq_le)

text \<open>\<^verbatim>\<open>parts[i] || ""\<close>: the empty string past the end of the array.\<close>

definition partAt :: "string list \<Rightarrow> nat \<Rightarrow> string" where
  "partAt parts i = (if i < length parts then parts ! i else [])"

text \<open>
  The loop of \<^verbatim>\<open>naturalSort\<close>, from index \<open>i\<close> on. \<open>lc\<close> is
  \<^verbatim>\<open>String.prototype.localeCompare\<close>, a function of the JavaScript runtime that the
  comparator is given here as a parameter. The result is a JavaScript number of which
  the caller reads the sign only; the model returns an integer of the same sign (the
  difference of the two doubles, or what \<open>lc\<close> returns).
\<close>

function naturalSortFrom ::
  "(string \<Rightarrow> string \<Rightarrow> int) \<Rightarrow> string list \<Rightarrow> string list \<Rightarrow> nat \<Rightarrow> int" where
  "naturalSortFrom lc aParts bParts i =
     (if i < max (length aParts) (length bParts) then
        (case (parseInt (partAt aParts i), parseInt (partAt bParts i)) of
           (Some aNum, Some bNum) \<Rightarrow>
             if aNum \<noteq> bNum then aNum - bNum
             else naturalSortFrom lc aParts bParts (i + 1)
         | _ \<Rightarrow>
             if lc (partAt aParts i) (partAt bParts i) \<noteq> 0
             then lc (partAt aParts i) (partAt bParts i)
             else naturalSortFrom lc aParts bParts (i + 1))
      else 0)"
  by pat_completeness auto
termination
  by (relation "measure (\<lambda>(lc, aParts, bParts, i). max (length aParts) (length bParts) - i)")
     auto

declare naturalSortFrom.simps [simp del]

definition naturalSort :: "(string \<Rightarrow> string \<Rightarrow> int) \<Rightarrow> string \<Rightarrow> string \<Rightarrow> int" where
  "naturalSort lc a b = naturalSortFrom lc (matchRuns a) (matchRuns b) 0"

text \<open>
  \<^verbatim>\<open>files.sort(compareFn)\<close>. ECMAScript requires the sort to be stable, and with a
  consistent comparator its result is the one stable sorted arrangement; the model is
  insertion from the right, which puts an element before the first one it does not
  come after (\<open>compareFn x y \<le> 0\<close>).
\<close>

fun insertBy :: "('a \<Rightarrow> 'a \<Rightarrow> int) \<Rightarrow> 'a \<Rightarrow> 'a list \<Rightarrow> 'a list" where
  "insertBy cmp x [] = [x]"
| "insertBy cmp x (y # ys) = (if cmp x y \<le> 0 then x # y # ys else y # insertBy cmp x ys)"

definition arraySort :: "('a \<Rightarrow> 'a \<Rightarrow> int) \<Rightarrow> 'a list \<Rightarrow> 'a list" where
  "arraySort cmp xs = foldr (insertBy cmp) xs []"

text \<open>
  A collation to run the comparator with: strings compared code unit by code unit,
  a proper prefix first. It stands in for \<^verbatim>\<open>localeCompare\<close> in the examples.
\<close>

fun codeUnitCompare :: "string \<Rightarrow> string \<Rightarrow> int" where
  "codeUnitCompare [] [] = 0"
| "codeUnitCompare [] (y # ys) = - 1"
| "codeUnitCompare (x # xs) [] = 1"
| "codeUnitCompare (x # xs) (y # ys) =
     (if (of_char x :: nat) < of_char y then - 1
      else if (of_char y :: nat) < of_char x then 1
      else codeUnitCompare xs ys)"


section \<open>Runs, and the loop of the comparator by structure\<close>

text \<open>
  A token of a name is a non-empty run of digits or a non-empty run of non-digits;
  in a tokenization the two kinds alternate.
\<close>

definition digitRun :: "string \<Rightarrow> bool" where
  "digitRun s = (s \<noteq> [] \<and> list_all isDigit s)"



definition comparePart :: "(string \<Rightarrow> string \<Rightarrow> int) \<Rightarrow> string \<Rightarrow> string \<Rightarrow> int" where
  "comparePart lc a b =
     (case (parseInt a, parseInt b) of
        (Some x, Some y) \<Rightarrow> x - y
      | _ \<Rightarrow> lc a b)"

fun compareParts :: "(string \<Rightarrow> string \<Rightarrow> int) \<Rightarrow> string list \<Rightarrow> string list \<Rightarrow> int" where
  "compareParts lc [] [] = 0"
| "compareParts lc (a # as) [] =
     (if comparePart lc a [] \<noteq> 0 then comparePart lc a [] else compareParts lc as [])"
| "compareParts lc [] (b # bs) =
     (if comparePart lc [] b \<noteq> 0 then comparePart lc [] b else compareParts lc [] bs)"
| "compareParts lc (a # as) (b # bs) =
     (if comparePart lc a b \<noteq> 0 then comparePart lc a b else compareParts lc as bs)"

section \<open>The comparator as the specification words it\<close>



text \<open>
  Two tokens that are the same string, or two runs of digits that denote the same
  integer.
\<close>

definition sameUpToNumber :: "string \<Rightarrow> string \<Rightarrow> bool" where
  "sameUpToNumber s t = (s = t \<or> (digitRun s \<and> digitRun t \<and> decimal s = decimal t))"

section \<open>Scanning for diagram blocks\<close>

record MermaidBlock =
  code :: string
  startIndex :: nat
  endIndex :: nat

definition fence :: string where
  "fence = replicate 3 (CHR 0x60)"

definition openFence :: string where
  "openFence = fence @ ''mermaid'' @ [CHR 0x0A]"

text \<open>\<^verbatim>\<open>s.indexOf(pat)\<close>: where \<open>pat\<close> first occurs in \<open>s\<close>.\<close>

fun indexOf :: "string \<Rightarrow> string \<Rightarrow> nat option" where
  "indexOf pat [] = (if pat = [] then Some 0 else None)"
| "indexOf pat (c # cs) =
     (if prefix pat (c # cs) then Some 0 else map_option Suc (indexOf pat cs))"

text \<open>
  The regular expression of \<^verbatim>\<open>extractMermaidBlocks\<close> is the opening fence, a newline,
  a lazy body \<^verbatim>\<open>([\s\S]*?)\<close> and three backticks. It matches at position \<open>p\<close> when
  the text there starts with the opening fence and newline and three backticks occur
  after them; the lazy body ends at their first occurrence. \<open>matchAt\<close> gives the body
  (group 1) and the length of the whole match.
\<close>

definition matchAt :: "string \<Rightarrow> nat \<Rightarrow> (string \<times> nat) option" where
  "matchAt markdown p =
     (if prefix openFence (drop p markdown)
      then (case indexOf fence (drop (p + length openFence) markdown) of
              Some k \<Rightarrow> Some (take k (drop (p + length openFence) markdown),
                              length openFence + k + length fence)
            | None \<Rightarrow> None)
      else None)"

text \<open>\<^verbatim>\<open>regex.exec(markdown)\<close> with \<^verbatim>\<open>regex.lastIndex = p\<close>: the leftmost match from \<open>p\<close> on.\<close>

function execFrom :: "string \<Rightarrow> nat \<Rightarrow> (nat \<times> string \<times> nat) option" where
  "execFrom markdown p =
     (if length markdown < p then None
      else (case matchAt markdown p of
              Some (body, n) \<Rightarrow> Some (p, body, n)
            | None \<Rightarrow> execFrom markdown (p + 1)))"
  by pat_completeness auto
termination
  by (relation "measure (\<lambda>(markdown, p). length markdown + 1 - p)") auto

declare execFrom.simps [simp del]

text \<open>A match lies inside the text and is at least as long as the two fences.\<close>

lemma indexOf_bound: "indexOf pat s = Some k \<Longrightarrow> k + length pat \<le> length s"
proof (induction s arbitrary: k)
  case Nil
  then show ?case by (simp split: if_splits)
next
  case (Cons c cs)
  show ?case
  proof (cases "prefix pat (c # cs)")
    case True
    then show ?thesis using Cons.prems prefix_length_le[of pat "c # cs"] by simp
  next
    case False
    then obtain j where "indexOf pat cs = Some j" "k = Suc j" using Cons.prems by auto
    then show ?thesis using Cons.IH by fastforce
  qed
qed

lemma fence_length: "length fence = 3" "length openFence = 11"
  by (simp_all add: fence_def openFence_def)

lemma matchAt_Some:
  assumes "matchAt markdown p = Some (body, n)"
  shows "prefix openFence (drop p markdown)
       \<and> indexOf fence (drop (p + length openFence) markdown) = Some (length body)
       \<and> body = take (length body) (drop (p + length openFence) markdown)
       \<and> n = length openFence + length body + length fence
       \<and> p + n \<le> length markdown"
proof -
  from assms have pre: "prefix openFence (drop p markdown)"
    by (auto simp: matchAt_def split: if_splits)
  with assms obtain k where k: "indexOf fence (drop (p + length openFence) markdown) = Some k"
    and body: "body = take k (drop (p + length openFence) markdown)"
    and n: "n = length openFence + k + length fence"
    by (auto simp: matchAt_def split: option.splits)
  from indexOf_bound[OF k] have le: "k + 3 \<le> length markdown - (p + 11)"
    by (simp add: fence_length)
  then have "length body = k" using body by (simp add: fence_length)
  then show ?thesis using pre k body n le by (simp add: fence_length)
qed

lemma matchAt_bound:
  "matchAt markdown p = Some (body, n) \<Longrightarrow>
     length openFence + length fence \<le> n \<and> p + n \<le> length markdown"
  using matchAt_Some[of markdown p body n] by simp

lemma execFrom_bound:
  "execFrom markdown p = Some (idx, body, n) \<Longrightarrow>
     p \<le> idx \<and> length openFence + length fence \<le> n \<and> idx + n \<le> length markdown"
proof (induction markdown p rule: execFrom.induct)
  case (1 markdown p)
  show ?case
  proof (cases "matchAt markdown p")
    case None
    then show ?thesis
      using 1 by (fastforce simp: execFrom.simps[of markdown p] split: if_splits)
  next
    case (Some m)
    then show ?thesis
      using 1(2) matchAt_bound[of markdown p "fst m" "snd m"]
      by (cases m) (auto simp: execFrom.simps[of markdown p] split: if_splits)
  qed
qed

text \<open>
  The \<^verbatim>\<open>while\<close> loop of \<^verbatim>\<open>extractMermaidBlocks\<close>: each match gives a block and moves
  \<^verbatim>\<open>lastIndex\<close> to its end.
\<close>

function extractFrom :: "string \<Rightarrow> nat \<Rightarrow> MermaidBlock list" where
  "extractFrom markdown lastIndex =
     (case execFrom markdown lastIndex of
        None \<Rightarrow> []
      | Some (idx, body, n) \<Rightarrow>
          \<lparr>code = trim body, startIndex = idx, endIndex = idx + n\<rparr>
            # extractFrom markdown (idx + n))"
  by pat_completeness auto
termination
proof (relation "measure (\<lambda>(markdown, lastIndex). length markdown + 1 - lastIndex)")
  show "wf (measure (\<lambda>(markdown, lastIndex). length markdown + 1 - lastIndex))" by simp
next
  fix markdown :: string and lastIndex :: nat and m idx m' body n
  assume "execFrom markdown lastIndex = Some m" "(idx, m') = m" "(body, n) = m'"
  then have "execFrom markdown lastIndex = Some (idx, body, n)" by simp
  from execFrom_bound[OF this]
  have "lastIndex \<le> idx" "14 \<le> n" "idx + n \<le> length markdown"
    by (simp_all add: fence_length)
  then show "((markdown, idx + n), (markdown, lastIndex))
          \<in> measure (\<lambda>(markdown, lastIndex). length markdown + 1 - lastIndex)"
    by simp
qed

declare extractFrom.simps [simp del]

definition extractMermaidBlocks :: "string \<Rightarrow> MermaidBlock list" where
  "extractMermaidBlocks markdown = extractFrom markdown 0"

section \<open>The world outside the converter\<close>

text \<open>
  The file system maps a path to what is there: a file with its contents, or a
  directory with its entries in the order in which \<^verbatim>\<open>readdirSync\<close> lists them. A
  JavaScript \<^verbatim>\<open>Error\<close> is its message; an error of \<^verbatim>\<open>node:fs\<close> is its code. Of the
  file system's own failures the model has those that the path itself decides (it is
  missing, or is a directory where a file is needed). The map is flat: a write does
  not look at the parent directory, so it succeeds also where \<^verbatim>\<open>node:fs\<close> fails for
  want of one.
\<close>

type_synonym path = string

datatype node = File string | Dir "string list"

type_synonym fs = "path \<Rightarrow> node option"

datatype error = Error string

definition existsSync :: "fs \<Rightarrow> path \<Rightarrow> bool" where
  "existsSync f p = (f p \<noteq> None)"

text \<open>\<^verbatim>\<open>fs.statSync(p).isDirectory()\<close>.\<close>

definition statIsDirectory :: "fs \<Rightarrow> path \<Rightarrow> error + bool" where
  "statIsDirectory f p =
     (case f p of
        None \<Rightarrow> Inl (Error ''ENOENT'')
      | Some (File _) \<Rightarrow> Inr False
      | Some (Dir _) \<Rightarrow> Inr True)"

definition readdirSync :: "fs \<Rightarrow> path \<Rightarrow> error + string list" where
  "readdirSync f p =
     (case f p of
        None \<Rightarrow> Inl (Error ''ENOENT'')
      | Some (File _) \<Rightarrow> Inl (Error ''ENOTDIR'')
      | Some (Dir entries) \<Rightarrow> Inr entries)"

definition readFileSync :: "fs \<Rightarrow> path \<Rightarrow> error + string" where
  "readFileSync f p =
     (case f p of
        None \<Rightarrow> Inl (Error ''ENOENT'')
      | Some (Dir _) \<Rightarrow> Inl (Error ''EISDIR'')
      | Some (File content) \<Rightarrow> Inr content)"

definition writeFileSync :: "fs \<Rightarrow> path \<Rightarrow> string \<Rightarrow> error + fs" where
  "writeFileSync f p content =
     (case f p of
        Some (Dir _) \<Rightarrow> Inl (Error ''EISDIR'')
      | _ \<Rightarrow> Inr (f(p \<mapsto> File content)))"

text \<open>\<^verbatim>\<open>fs.mkdirSync(p, { recursive: true })\<close>.\<close>

definition mkdirSync :: "fs \<Rightarrow> path \<Rightarrow> error + fs" where
  "mkdirSync f p =
     (case f p of
        None \<Rightarrow> Inr (f(p \<mapsto> Dir []))
      | Some (Dir _) \<Rightarrow> Inr f
      | Some (File _) \<Rightarrow> Inl (Error ''EEXIST''))"

text \<open>
  A child process, run to its end: it fails to start (the \<^verbatim>\<open>error\<close> event), or it
  closes with an exit code and what it wrote to its error stream; either way it
  leaves a file system behind.
\<close>

datatype processResult = ProcError error fs | ProcClose int string fs

text \<open>
  What the document engine (\<^verbatim>\<open>unified\<close> with \<^verbatim>\<open>remark-docx\<close> and the plugins) hands
  back: it throws, or its result is a \<^verbatim>\<open>Buffer\<close>, a \<^verbatim>\<open>Uint8Array\<close> or something else.
\<close>

datatype engineResult =
  EngineThrows error | EngineBuffer string | EngineUint8Array string | EngineOther

text \<open>
  The state a call of the converter runs in and leaves behind: the file system, and
  the child processes spawned so far (command and arguments).
\<close>

record world =
  files :: fs
  spawned :: "(path \<times> string list) list"

text \<open>
  What the converter takes from its runtime and its libraries, as parameters:
  \<^verbatim>\<open>this.tempDir\<close>, \<^verbatim>\<open>process.cwd()\<close>, the functions of \<^verbatim>\<open>node:path\<close>, the MD5 digest in
  hexadecimal, \<^verbatim>\<open>spawn\<close> (the process run to its end on a file system), the document
  engine and \<^verbatim>\<open>localeCompare\<close>.
\<close>

record env =
  tempDir :: path
  cwd :: path
  pathJoin :: "string list \<Rightarrow> path"
  pathResolve :: "path \<Rightarrow> path"
  pathDirname :: "path \<Rightarrow> path"
  md5Hex :: "string \<Rightarrow> string"
  spawn :: "fs \<Rightarrow> path \<Rightarrow> string list \<Rightarrow> processResult"
  docxEngine :: "fs \<Rightarrow> string \<Rightarrow> engineResult"
  localeCompare :: "string \<Rightarrow> string \<Rightarrow> int"

section \<open>Base64\<close>

definition base64Alphabet :: string where
  "base64Alphabet = ''ABCDEFGHIJKLMNOPQRSTUVWXYZabcdefghijklmnopqrstuvwxyz0123456789+/''"

definition base64Char :: "nat \<Rightarrow> char" where
  "base64Char n = base64Alphabet ! (n mod 64)"

fun base64Bytes :: "nat list \<Rightarrow> string" where
  "base64Bytes [] = []"
| "base64Bytes [a] =
     [base64Char (a div 4), base64Char (a mod 4 * 16), CHR ''='', CHR ''='']"
| "base64Bytes [a, b] =
     [base64Char (a div 4), base64Char (a mod 4 * 16 + b div 16),
      base64Char (b mod 16 * 4), CHR ''='']"
| "base64Bytes (a # b # c # rest) =
     [base64Char (a div 4), base64Char (a mod 4 * 16 + b div 16),
      base64Char (b mod 16 * 4 + c div 64), base64Char (c mod 64)] @ base64Bytes rest"

text \<open>\<^verbatim>\<open>buffer.toString("base64")\<close>.\<close>

definition base64 :: "string \<Rightarrow> string" where
  "base64 bytes = base64Bytes (map of_char bytes)"

section \<open>Rendering one diagram, with the cache\<close>

definition renderMermaidToPng :: "env \<Rightarrow> world \<Rightarrow> string \<Rightarrow> (error + path) \<times> world" where
  "renderMermaidToPng env w mermaidCode =
     (let hash = md5Hex env mermaidCode;
          inputFile = pathJoin env [tempDir env, hash @ ''.mmd''];
          outputFile = pathJoin env [tempDir env, hash @ ''.png'']
      in if existsSync (files w) outputFile then (Inr outputFile, w)
         else (case writeFileSync (files w) inputFile mermaidCode of
                 Inl e \<Rightarrow> (Inl e, w)
               | Inr f1 \<Rightarrow>
                   (let mmdc = pathJoin env [cwd env, ''node_modules'', ''.bin'', ''mmdc''];
                        args = [''-i'', inputFile, ''-o'', outputFile, ''-b'', ''white'', ''-s'', ''2''];
                        log = spawned w @ [(mmdc, args)]
                    in (case spawn env f1 mmdc args of
                          ProcError e f2 \<Rightarrow> (Inl e, \<lparr>files = f2, spawned = log\<rparr>)
                        | ProcClose exitCode stderr f2 \<Rightarrow>
                            if exitCode \<noteq> 0
                            then (Inl (Error (''Mermaid rendering failed: '' @ stderr)),
                                  \<lparr>files = f2, spawned = log\<rparr>)
                            else if \<not> existsSync f2 outputFile
                            then (Inl (Error ''Mermaid output file not created''),
                                  \<lparr>files = f2, spawned = log\<rparr>)
                            else (Inr outputFile, \<lparr>files = f2, spawned = log\<rparr>)))))"

section \<open>Rewriting the Markdown\<close>

definition imgMarkdown :: "string \<Rightarrow> string" where
  "imgMarkdown pngBuffer =
     [CHR 0x0A, CHR 0x0A] @ ''![Mermaid Diagram](data:image/png;base64,'' @ base64 pngBuffer
       @ '')'' @ [CHR 0x0A, CHR 0x0A]"

text \<open>
  What the \<^verbatim>\<open>try\<close> block of \<^verbatim>\<open>preprocessMermaid\<close> computes before it touches the
  text, and where it can throw: the render, and reading the image back.
\<close>

definition renderBlock :: "env \<Rightarrow> world \<Rightarrow> MermaidBlock \<Rightarrow> (error + string) \<times> world" where
  "renderBlock env w block =
     (case renderMermaidToPng env w (code block) of
        (Inl e, w1) \<Rightarrow> (Inl e, w1)
      | (Inr pngPath, w1) \<Rightarrow>
          (case readFileSync (files w1) pngPath of
             Inl e \<Rightarrow> (Inl e, w1)
           | Inr pngBuffer \<Rightarrow> (Inr (imgMarkdown pngBuffer), w1)))"

text \<open>
  The \<^verbatim>\<open>for\<close> loop of \<^verbatim>\<open>preprocessMermaid\<close> over the blocks that are left, on the
  state \<open>(result, offset, world)\<close>. A block whose \<^verbatim>\<open>try\<close> throws is caught (and
  logged to the console, which the model leaves out): text and offset stay.
\<close>

fun preprocessLoop ::
  "env \<Rightarrow> MermaidBlock list \<Rightarrow> string \<times> int \<times> world \<Rightarrow> string \<times> int \<times> world" where
  "preprocessLoop env [] st = st"
| "preprocessLoop env (block # blocks) (result, offset, w) =
     (case renderBlock env w block of
        (Inr img, w1) \<Rightarrow>
          (let adjustedStart = int (startIndex block) + offset;
               adjustedEnd = int (endIndex block) + offset
           in preprocessLoop env blocks
                (substring result 0 adjustedStart @ img @ substringFrom result adjustedEnd,
                 offset + (int (length img) - (int (endIndex block) - int (startIndex block))),
                 w1))
      | (Inl e, w1) \<Rightarrow> preprocessLoop env blocks (result, offset, w1))"

definition preprocessMermaid :: "env \<Rightarrow> world \<Rightarrow> string \<Rightarrow> string \<times> world" where
  "preprocessMermaid env w markdown =
     (let blocks = extractMermaidBlocks markdown
      in if length blocks = 0 then (markdown, w)
         else (case preprocessLoop env blocks (markdown, 0, w) of
                 (result, offset, w') \<Rightarrow> (result, w')))"

section \<open>Converting\<close>

record ConvertOptions =
  enableMermaid :: "bool option"

datatype separatorKind = Pagebreak | Hr | NoSeparator

record MergeOptions = ConvertOptions +
  sortFn :: "(string \<Rightarrow> string \<Rightarrow> int) option"
  separator :: "separatorKind option"

text \<open>\<^verbatim>\<open>const { enableMermaid = false } = options\<close>.\<close>

definition mermaidEnabled :: "'a ConvertOptions_scheme \<Rightarrow> bool" where
  "mermaidEnabled options = (case enableMermaid options of None \<Rightarrow> False | Some b \<Rightarrow> b)"

definition convert ::
  "env \<Rightarrow> 'a ConvertOptions_scheme \<Rightarrow> world \<Rightarrow> string \<Rightarrow> (error + string) \<times> world" where
  "convert env options w markdown =
     (case (if mermaidEnabled options then preprocessMermaid env w markdown else (markdown, w)) of
        (processedMarkdown, w1) \<Rightarrow>
          (case docxEngine env (files w1) processedMarkdown of
             EngineThrows e \<Rightarrow> (Inl e, w1)
           | EngineBuffer buffer \<Rightarrow> (Inr buffer, w1)
           | EngineUint8Array buffer \<Rightarrow> (Inr buffer, w1)
           | EngineOther \<Rightarrow> (Inl (Error ''Unexpected result type from docx conversion''), w1)))"

text \<open>
  The last step of the three file conversions: make sure the directory of the
  destination exists, then write the bytes there.
\<close>

definition writeOutput :: "env \<Rightarrow> world \<Rightarrow> path \<Rightarrow> string \<Rightarrow> (error + unit) \<times> world" where
  "writeOutput env w absoluteOutputPath buffer =
     (let outputDir = pathDirname env absoluteOutputPath
      in (case (if \<not> existsSync (files w) outputDir then mkdirSync (files w) outputDir
                else Inr (files w)) of
            Inl e \<Rightarrow> (Inl e, w)
          | Inr f1 \<Rightarrow>
              (case writeFileSync f1 absoluteOutputPath buffer of
                 Inl e \<Rightarrow> (Inl e, w\<lparr>files := f1\<rparr>)
               | Inr f2 \<Rightarrow> (Inr (), w\<lparr>files := f2\<rparr>))))"


text \<open>\<^verbatim>\<open>file.endsWith(".md")\<close>.\<close>

definition endsWithMd :: "string \<Rightarrow> bool" where
  "endsWithMd file = suffix ''.md'' file"

definition separatorMarkdown :: "separatorKind option \<Rightarrow> string" where
  "separatorMarkdown sep =
     (case (case sep of None \<Rightarrow> Pagebreak | Some k \<Rightarrow> k) of
        Pagebreak \<Rightarrow>
          [CHR 0x0A, CHR 0x0A] @ ''<div style='' @ [CHR 0x22] @ ''page-break-after: always;''
            @ [CHR 0x22] @ ''></div>'' @ [CHR 0x0A, CHR 0x0A]
      | Hr \<Rightarrow> [CHR 0x0A, CHR 0x0A] @ ''---'' @ [CHR 0x0A, CHR 0x0A]
      | NoSeparator \<Rightarrow> [])"

text \<open>
  The loop that reads the files of a directory: the first read that throws ends
  it.
\<close>

fun readAll :: "env \<Rightarrow> fs \<Rightarrow> path \<Rightarrow> string list \<Rightarrow> error + string list" where
  "readAll env f dir [] = Inr []"
| "readAll env f dir (file # rest) =
     (case readFileSync f (pathJoin env [dir, file]) of
        Inl e \<Rightarrow> Inl e
      | Inr content \<Rightarrow>
          (case readAll env f dir rest of
             Inl e \<Rightarrow> Inl e
           | Inr contents \<Rightarrow> Inr (content # contents)))"

definition convertDirectory ::
  "env \<Rightarrow> 'a MergeOptions_scheme \<Rightarrow> world \<Rightarrow> path \<Rightarrow> path \<Rightarrow> (error + unit) \<times> world" where
  "convertDirectory env options w inputDir outputPath =
     (let absoluteInputDir = pathResolve env inputDir;
          absoluteOutputPath = pathResolve env outputPath
      in if \<not> existsSync (files w) absoluteInputDir
         then (Inl (Error (''Input directory not found: '' @ absoluteInputDir)), w)
         else (case statIsDirectory (files w) absoluteInputDir of
                 Inl e \<Rightarrow> (Inl e, w)
               | Inr isDir \<Rightarrow>
                   if \<not> isDir then (Inl (Error (''Not a directory: '' @ absoluteInputDir)), w)
                   else (case readdirSync (files w) absoluteInputDir of
                           Inl e \<Rightarrow> (Inl e, w)
                         | Inr entries \<Rightarrow>
     (let compareFn = (case sortFn options of
                         None \<Rightarrow> naturalSort (localeCompare env)
                       | Some f \<Rightarrow> f);
          sorted = arraySort compareFn (filter endsWithMd entries)
      in if length sorted = 0
         then (Inl (Error (''No markdown files found in: '' @ absoluteInputDir)), w)
         else (case readAll env (files w) absoluteInputDir sorted of
                 Inl e \<Rightarrow> (Inl e, w)
               | Inr contents \<Rightarrow>
                   (case convert env options w
                           (join (separatorMarkdown (separator options)) contents) of
                      (Inl e, w1) \<Rightarrow> (Inl e, w1)
                    | (Inr buffer, w1) \<Rightarrow> writeOutput env w1 absoluteOutputPath buffer))))))"

text \<open>
  The loop of \<^verbatim>\<open>convertFiles\<close> over the listed paths: a path that does not exist
  ends it with the error that names it, and so does a read that throws.
\<close>

fun readListed :: "env \<Rightarrow> fs \<Rightarrow> path list \<Rightarrow> error + string list" where
  "readListed env f [] = Inr []"
| "readListed env f (inputPath # rest) =
     (let absoluteInputPath = pathResolve env inputPath
      in if \<not> existsSync f absoluteInputPath
         then Inl (Error (''Input file not found: '' @ absoluteInputPath))
         else (case readFileSync f absoluteInputPath of
                 Inl e \<Rightarrow> Inl e
               | Inr content \<Rightarrow>
                   (case readListed env f rest of
                      Inl e \<Rightarrow> Inl e
                    | Inr contents \<Rightarrow> Inr (content # contents))))"

definition convertFiles ::
  "env \<Rightarrow> 'a MergeOptions_scheme \<Rightarrow> world \<Rightarrow> path list \<Rightarrow> path \<Rightarrow> (error + unit) \<times> world" where
  "convertFiles env options w inputPaths outputPath =
     (let absoluteOutputPath = pathResolve env outputPath
      in if length inputPaths = 0 then (Inl (Error ''No input files provided''), w)
         else (case readListed env (files w) inputPaths of
                 Inl e \<Rightarrow> (Inl e, w)
               | Inr contents \<Rightarrow>
                   (case convert env options w
                           (join (separatorMarkdown (separator options)) contents) of
                      (Inl e, w1) \<Rightarrow> (Inl e, w1)
                    | (Inr buffer, w1) \<Rightarrow> writeOutput env w1 absoluteOutputPath buffer)))"

section \<open>Counting a fragment in a text\<close>


section \<open>The rewriter as the specification words it\<close>

text \<open>
  Blocks in ascending order from position \<open>pos\<close> on, one after the other inside a
  text of the given length.
\<close>

fun blocksFrom :: "nat \<Rightarrow> MermaidBlock list \<Rightarrow> nat \<Rightarrow> bool" where
  "blocksFrom pos [] len = (pos \<le> len)"
| "blocksFrom pos (b # bs) len =
     (pos \<le> startIndex b \<and> startIndex b < endIndex b \<and> blocksFrom (endIndex b) bs len)"

text \<open>Where the last of the blocks ends (\<open>pos\<close> when there is none).\<close>

fun lastEnd :: "nat \<Rightarrow> MermaidBlock list \<Rightarrow> nat" where
  "lastEnd pos [] = pos"
| "lastEnd pos (b # bs) = lastEnd (endIndex b) bs"

text \<open>
  What the render of each block gives, in order: the image reference, or the
  error that the loop catches. The world is threaded through as the loop does.
\<close>

fun outcomes :: "env \<Rightarrow> world \<Rightarrow> MermaidBlock list \<Rightarrow> (error + string) list" where
  "outcomes env w [] = []"
| "outcomes env w (b # bs) = fst (renderBlock env w b) # outcomes env (snd (renderBlock env w b)) bs"

text \<open>
  The difference between a replacement's length and the length of the span it
  replaces; nothing for a block that is left alone.
\<close>

definition drift :: "MermaidBlock \<Rightarrow> error + string \<Rightarrow> int" where
  "drift b r =
     (case r of
        Inr img \<Rightarrow> int (length img) - (int (endIndex b) - int (startIndex b))
      | Inl e \<Rightarrow> 0)"

text \<open>
  The text that stands for a block in the output: the image reference, or the
  block's own span of the original text when its render failed.
\<close>

definition piece :: "string \<Rightarrow> MermaidBlock \<Rightarrow> error + string \<Rightarrow> string" where
  "piece markdown b r =
     (case r of
        Inr img \<Rightarrow> img
      | Inl e \<Rightarrow> take (endIndex b - startIndex b) (drop (startIndex b) markdown))"

text \<open>
  The output built in one forward pass over the original text: the untouched text
  up to each block, the block's piece, and at the end the rest of the text.
\<close>

fun spec_prefix :: "string \<Rightarrow> nat \<Rightarrow> (MermaidBlock \<times> (error + string)) list \<Rightarrow> string" where
  "spec_prefix markdown pos [] = []"
| "spec_prefix markdown pos ((b, r) # rest) =
     take (startIndex b - pos) (drop pos markdown) @ piece markdown b r
       @ spec_prefix markdown (endIndex b) rest"


section \<open>A runtime to run the examples in\<close>

text \<open>
  Paths are joined with a slash and are absolute already; the digest is the text
  itself; the diagram renderer draws the diagram \<open>A\<close> and fails on every other one;
  the document engine returns the Markdown as a buffer; strings compare by code units.
\<close>

definition exampleEnv :: env where
  "exampleEnv =
     \<lparr>tempDir = ''/tmp/md-docx-mermaid'',
      cwd = ''/app'',
      pathJoin = join ''/'',
      pathResolve = (\<lambda>p. p),
      pathDirname = (\<lambda>p. rev (tl (dropWhile (\<lambda>c. c \<noteq> CHR ''/'') (rev p)))),
      md5Hex = (\<lambda>s. s),
      spawn = (\<lambda>f command args.
                 if f (args ! 1) = Some (File ''A'')
                 then ProcClose 0 [] (f(args ! 3 \<mapsto> File ''PNG''))
                 else ProcClose 1 ''Parse error'' f),
      docxEngine = (\<lambda>f markdown. EngineBuffer markdown),
      localeCompare = codeUnitCompare\<rparr>"

definition exampleWorld :: world where
  "exampleWorld =
     \<lparr>files = [''/tmp/md-docx-mermaid'' \<mapsto> Dir [],
               ''/docs'' \<mapsto> Dir [''b.md'', ''notes.txt'', ''a.md''],
               ''/docs/a.md'' \<mapsto> File ''# A'',
               ''/docs/b.md'' \<mapsto> File ''# B'',
               ''/docs/notes.txt'' \<mapsto> File ''n'',
               ''/empty'' \<mapsto> Dir [''notes.txt'']],
      spawned = []\<rparr>"

definition exampleMarkdown :: string where
  "exampleMarkdown = ''x'' @ openFence @ ''A'' @ fence @ ''y'' @ openFence @ ''B'' @ fence @ ''z''"

definition exampleOptions :: MergeOptions where
  "exampleOptions = \<lparr>enableMermaid = None, sortFn = None, separator = None\<rparr>"

section \<open>What the preprocessing leaves alone\<close>


section \<open>How a file conversion may end\<close>



section \<open>More of the example runtime\<close>



section \<open>Comparators a sort can rely on\<close>


section \<open>Facts about runs and the comparator\<close>










lemma isDigit_not_space: "isDigit c \<Longrightarrow> \<not> isWhiteSpace c"
  by (auto simp: isDigit_def isWhiteSpace_def)

lemma isDigit_not_sign: "isDigit c \<Longrightarrow> c \<noteq> CHR ''-'' \<and> c \<noteq> CHR ''+''"
  by (auto simp: isDigit_def)

lemma parseInt_digitRun:
  assumes "digitRun t"
  shows "parseInt t = Some (int (toDouble (decimal t)))"
proof -
  from assms obtain c cs where t: "t = c # cs" and c: "isDigit c" and all: "list_all isDigit t"
    by (cases t) (auto simp: digitRun_def)
  have 1: "dropWhile isWhiteSpace t = t" using t c isDigit_not_space by simp
  have 2: "takeWhile isDigit t = t" using all by (simp add: list_all_iff)
  show ?thesis
    unfolding parseInt_def Let_def 1 using 2 t isDigit_not_sign[OF c] by simp
qed





lemma compareParts_step:
  "i < max (length as) (length bs) \<Longrightarrow>
   compareParts lc (drop i as) (drop i bs) =
     (if comparePart lc (partAt as i) (partAt bs i) \<noteq> 0
      then comparePart lc (partAt as i) (partAt bs i)
      else compareParts lc (drop (Suc i) as) (drop (Suc i) bs))"
proof -
  assume lt: "i < max (length as) (length bs)"
  consider (both) "i < length as" "i < length bs"
    | (left) "i < length as" "length bs \<le> i"
    | (right) "length as \<le> i" "i < length bs"
    using lt by linarith
  then show ?thesis
  proof cases
    case both
    then show ?thesis
      by (simp add: partAt_def Cons_nth_drop_Suc[symmetric])
  next
    case left
    then show ?thesis
      by (simp add: partAt_def Cons_nth_drop_Suc[symmetric])
  next
    case right
    then show ?thesis
      by (simp add: partAt_def Cons_nth_drop_Suc[symmetric])
  qed
qed

lemma naturalSortFrom_compareParts:
  "naturalSortFrom lc as bs i = compareParts lc (drop i as) (drop i bs)"
proof (induction lc as bs i rule: naturalSortFrom.induct)
  case (1 lc aParts bParts i)
  show ?case
  proof (cases "i < max (length aParts) (length bParts)")
    case False
    then show ?thesis by (simp add: naturalSortFrom.simps[of lc aParts bParts i])
  next
    case True
    show ?thesis
      unfolding compareParts_step[OF True] naturalSortFrom.simps[of lc aParts bParts i]
      using True 1
      by (auto simp: comparePart_def split: option.splits)
  qed
qed

lemma naturalSort_compareParts:
  "naturalSort lc a b = compareParts lc (matchRuns a) (matchRuns b)"
  by (simp add: naturalSort_def naturalSortFrom_compareParts)






lemma matchRuns_digits_prefix:
  assumes "digitRun ds" "r = [] \<or> \<not> isDigit (hd r)"
  shows "matchRuns (ds @ r) = ds # matchRuns r"
proof -
  from assms(1) obtain c cs where ds: "ds = c # cs" and c: "isDigit c"
    and cs: "\<forall>x\<in>set cs. isDigit x"
    by (cases ds) (auto simp: digitRun_def list_all_iff)
  have "takeWhile isDigit r = []" using assms(2) by (cases r) auto
  then have t: "takeWhile isDigit (cs @ r) = cs" using cs by (simp add: takeWhile_append2)
  have "dropWhile isDigit r = r" using assms(2) by (cases r) auto
  then have d: "dropWhile isDigit (cs @ r) = r" using cs by (simp add: dropWhile_append2)
  show ?thesis unfolding ds using c t d by simp
qed

lemma digitVal_zero: "digitVal (CHR ''0'') = 0"
  by (simp add: digitVal_def)

lemma foldl_zeros: "foldl (\<lambda>n c. 10 * n + digitVal c) 0 (replicate n (CHR ''0'')) = 0"
  by (induction n) (simp_all add: digitVal_zero)

lemma decimal_zeros: "decimal (replicate n (CHR ''0'') @ d) = decimal d"
  by (simp add: decimal_def foldl_zeros)

lemma isDigit_zero: "isDigit (CHR ''0'')"
  by (simp add: isDigit_def)

lemma digitRun_zeros: "digitRun d \<Longrightarrow> digitRun (replicate n (CHR ''0'') @ d)"
  by (auto simp: digitRun_def list_all_iff isDigit_zero)

lemma comparePart_refl: "lc t t = 0 \<Longrightarrow> comparePart lc t t = 0"
  by (simp add: comparePart_def split: option.splits)

lemma compareParts_refl: "\<forall>s. lc s s = 0 \<Longrightarrow> compareParts lc ts ts = 0"
  by (induction ts) (simp_all add: comparePart_refl)

lemma comparePart_same_number:
  "digitRun s \<Longrightarrow> digitRun t \<Longrightarrow> toDouble (decimal s) = toDouble (decimal t)
     \<Longrightarrow> comparePart lc s t = 0"
  by (simp add: comparePart_def parseInt_digitRun)

lemma zero_padding:
  assumes "\<forall>s. lc s s = 0" "digitRun d" "r = [] \<or> \<not> isDigit (hd r)"
  shows "naturalSort lc (replicate n (CHR ''0'') @ d @ r) (d @ r) = 0
       \<and> naturalSort lc (d @ r) (replicate n (CHR ''0'') @ d @ r) = 0"
proof -
  let ?z = "replicate n (CHR ''0'') @ d"
  have z: "digitRun ?z" using assms(2) by (rule digitRun_zeros)
  have 1: "matchRuns (?z @ r) = ?z # matchRuns r"
    using z assms(3) by (rule matchRuns_digits_prefix)
  have 2: "matchRuns (d @ r) = d # matchRuns r"
    using assms(2,3) by (rule matchRuns_digits_prefix)
  have 3: "comparePart lc ?z d = 0" "comparePart lc d ?z = 0"
    using z assms(2) by (simp_all add: comparePart_same_number decimal_zeros)
  show ?thesis
    using 1 2 3 compareParts_refl[of lc, OF assms(1)]
    by (simp add: naturalSort_compareParts)
qed

lemma codeUnitCompare_refl: "codeUnitCompare s s = 0"
  by (induction s) simp_all

lemma comparePart_sameUpToNumber:
  "lc s s = 0 \<Longrightarrow> sameUpToNumber s t \<Longrightarrow> comparePart lc s t = 0"
  unfolding sameUpToNumber_def
  using comparePart_refl[of lc s] comparePart_same_number[of s t lc] by auto

lemma compareParts_sameUpToNumber:
  assumes "\<forall>s. lc s s = 0"
  shows "list_all2 sameUpToNumber ss ts \<Longrightarrow> compareParts lc ss ts = 0"
proof (induction ss ts rule: list_all2_induct)
  case Nil
  then show ?case by simp
next
  case (Cons s ss t ts)
  then show ?case using assms by (simp add: comparePart_sameUpToNumber)
qed

lemma sameUpToNumber_refl: "sameUpToNumber s s"
  by (simp add: sameUpToNumber_def)

lemma sameUpToNumber_sym: "sameUpToNumber s t \<Longrightarrow> sameUpToNumber t s"
  by (auto simp: sameUpToNumber_def)

lemma list_all2_sameUpToNumber_sym:
  "list_all2 sameUpToNumber ss ts \<Longrightarrow> list_all2 sameUpToNumber ts ss"
  by (induction ss ts rule: list_all2_induct) (simp_all add: sameUpToNumber_sym)

lemma arraySort_pair_tie: "cmp a b = 0 \<Longrightarrow> arraySort cmp [a, b] = [a, b]"
  by (simp add: arraySort_def)

text \<open>
  Claim C10. The comparator returns 0 for distinct names whose tokens agree position
  by position up to the spelling of equal numbers (\<open>01-intro.md\<close> and
  \<open>1-intro.md\<close>): no tie-break looks at the strings of numerically equal tokens.
  Sorting two such names leaves them in the order in which they were enumerated.
  In particular zeros in front of a number change nothing. The collation \<open>lc\<close>
  is only asked to compare a string equal to itself.
\<close>

theorem numerically_equal_names_tie:
  assumes "\<forall>s. lc s s = 0"
    and "list_all2 sameUpToNumber (matchRuns a) (matchRuns b)"
  shows "naturalSort lc a b = 0 \<and> naturalSort lc b a = 0
       \<and> arraySort (naturalSort lc) [a, b] = [a, b]
       \<and> arraySort (naturalSort lc) [b, a] = [b, a]
       \<and> (digitRun d \<and> (r = [] \<or> \<not> isDigit (hd r)) \<longrightarrow>
            naturalSort lc (replicate n (CHR ''0'') @ d @ r) (d @ r) = 0)"
proof -
  have 1: "naturalSort lc a b = 0"
    using assms by (simp add: naturalSort_compareParts compareParts_sameUpToNumber)
  have 2: "naturalSort lc b a = 0"
    using assms(1) list_all2_sameUpToNumber_sym[OF assms(2)]
    by (simp add: naturalSort_compareParts compareParts_sameUpToNumber)
  have 3: "digitRun d \<and> (r = [] \<or> \<not> isDigit (hd r)) \<longrightarrow>
            naturalSort lc (replicate n (CHR ''0'') @ d @ r) (d @ r) = 0"
    using zero_padding[of lc d r n] assms(1) by blast
  show ?thesis using 1 2 3 by (simp add: arraySort_pair_tie)
qed

lemma intro_runs:
  "matchRuns ''01-intro.md'' = [''01'', ''-intro.md'']"
  "matchRuns ''1-intro.md'' = [''1'', ''-intro.md'']"
  by (simp_all add: isDigit_def)

lemma intro_same: "sameUpToNumber ''01'' ''1''"
  by (simp add: sameUpToNumber_def digitRun_def isDigit_def decimal_def digitVal_def)

theorem numerically_equal_names_tie_witness:
  "''01-intro.md'' \<noteq> ''1-intro.md''
   \<and> naturalSort codeUnitCompare ''01-intro.md'' ''1-intro.md'' = 0
   \<and> naturalSort codeUnitCompare ''1-intro.md'' ''01-intro.md'' = 0
   \<and> arraySort (naturalSort codeUnitCompare) [''01-intro.md'', ''1-intro.md'']
       = [''01-intro.md'', ''1-intro.md'']
   \<and> arraySort (naturalSort codeUnitCompare) [''1-intro.md'', ''01-intro.md'']
       = [''1-intro.md'', ''01-intro.md'']"
proof -
  have r: "\<forall>s. codeUnitCompare s s = 0" by (simp add: codeUnitCompare_refl)
  have l: "list_all2 sameUpToNumber (matchRuns ''01-intro.md'') (matchRuns ''1-intro.md'')"
    unfolding intro_runs by (simp add: intro_same sameUpToNumber_refl)
  show ?thesis
    using numerically_equal_names_tie[of codeUnitCompare, OF r l] by simp
qed

















section \<open>The section joiner\<close>








section \<open>The scanner\<close>

lemma indexOf_first:
  "indexOf pat s = Some k \<Longrightarrow> prefix pat (drop k s) \<and> (\<forall>j<k. \<not> prefix pat (drop j s))"
proof (induction s arbitrary: k)
  case Nil
  then show ?case by (simp split: if_splits)
next
  case (Cons c cs)
  show ?case
  proof (cases "prefix pat (c # cs)")
    case True
    then show ?thesis using Cons.prems by simp
  next
    case False
    then obtain j where j: "indexOf pat cs = Some j" "k = Suc j" using Cons.prems by auto
    from Cons.IH[OF j(1)] have ih: "prefix pat (drop j cs)" "\<forall>i<j. \<not> prefix pat (drop i cs)"
      by simp_all
    have "\<not> prefix pat (drop i (c # cs))" if "i < k" for i
    proof (cases i)
      case 0
      then show ?thesis using False by simp
    next
      case (Suc i')
      then show ?thesis using that j(2) ih(2) by simp
    qed
    then show ?thesis using ih(1) j(2) by simp
  qed
qed

lemma execFrom_matchAt:
  "execFrom markdown p = Some (idx, body, n) \<Longrightarrow> matchAt markdown idx = Some (body, n)"
proof (induction markdown p rule: execFrom.induct)
  case (1 markdown p)
  show ?case
  proof (cases "matchAt markdown p")
    case None
    then show ?thesis
      using 1 by (simp add: execFrom.simps[of markdown p] split: if_splits)
  next
    case (Some m)
    then show ?thesis
      using 1(2) by (cases m) (auto simp: execFrom.simps[of markdown p] split: if_splits)
  qed
qed

lemma extractFrom_matchAt:
  "b \<in> set (extractFrom markdown i) \<Longrightarrow>
     \<exists>body n. matchAt markdown (startIndex b) = Some (body, n)
       \<and> code b = trim body \<and> endIndex b = startIndex b + n"
proof (induction markdown i rule: extractFrom.induct)
  case (1 markdown lastIndex)
  show ?case
  proof (cases "execFrom markdown lastIndex")
    case None
    then show ?thesis using 1(2) by (simp add: extractFrom.simps[of markdown lastIndex])
  next
    case (Some m)
    obtain idx body n where m: "m = (idx, body, n)" by (cases m)
    have ex: "execFrom markdown lastIndex = Some (idx, body, n)" using Some m by simp
    from 1(2) have "b = \<lparr>code = trim body, startIndex = idx, endIndex = idx + n\<rparr>
        \<or> b \<in> set (extractFrom markdown (idx + n))"
      by (simp add: extractFrom.simps[of markdown lastIndex] ex)
    then show ?thesis
    proof
      assume "b = \<lparr>code = trim body, startIndex = idx, endIndex = idx + n\<rparr>"
      then show ?thesis using execFrom_matchAt[OF ex] by simp
    next
      assume "b \<in> set (extractFrom markdown (idx + n))"
      then show ?thesis using 1(1)[OF ex] by simp
    qed
  qed
qed

lemma matchAt_text:
  assumes "matchAt markdown p = Some (body, n)"
  shows "take n (drop p markdown) = openFence @ body @ fence"
    and "\<forall>j<length body. \<not> prefix fence (drop (p + length openFence + j) markdown)"
proof -
  let ?r = "drop (p + length openFence) markdown"
  from matchAt_Some[OF assms] have pre: "prefix openFence (drop p markdown)"
    and k: "indexOf fence ?r = Some (length body)"
    and body: "body = take (length body) ?r"
    and n: "n = length openFence + length body + length fence"
    by simp_all
  from pre obtain r where r: "drop p markdown = openFence @ r" by (auto simp: prefix_def)
  then have "drop (length openFence) (drop p markdown) = r" by simp
  then have rr: "?r = r" by (simp add: add.commute)
  from indexOf_first[OF k] have f: "prefix fence (drop (length body) ?r)"
    and first: "\<forall>j<length body. \<not> prefix fence (drop j ?r)" by simp_all
  from f obtain t where t: "drop (length body) ?r = fence @ t" by (auto simp: prefix_def)
  have "?r = take (length body) ?r @ drop (length body) ?r"
    by (rule append_take_drop_id[symmetric])
  then have "r = body @ fence @ t" using body t rr by metis
  then have "drop p markdown = openFence @ body @ fence @ t" using r by simp
  then show "take n (drop p markdown) = openFence @ body @ fence" using n by simp
  show "\<forall>j<length body. \<not> prefix fence (drop (p + length openFence + j) markdown)"
    using first by (simp add: add.commute)
qed

text \<open>
  Claim C9. Every block the scanner returns starts where the text reads three
  backticks, \<open>mermaid\<close> and a newline, and it ends with the first three backticks
  after that newline, wherever they stand: the block's span is the opening fence, a
  body with no earlier occurrence of three backticks, and three backticks, and its
  code is the body trimmed. A tag followed by a space or by more text before the
  newline opens no block, and a body that holds three backticks is cut there.
\<close>

theorem scanner_recognizes:
  assumes "b \<in> set (extractMermaidBlocks markdown)"
  shows "(\<exists>body. take (endIndex b - startIndex b) (drop (startIndex b) markdown)
                   = openFence @ body @ fence
               \<and> endIndex b = startIndex b + length openFence + length body + length fence
               \<and> code b = trim body
               \<and> (\<forall>j<length body.
                     \<not> prefix fence (drop (startIndex b + length openFence + j) markdown)))
       \<and> endIndex b \<le> length markdown
       \<and> openFence = fence @ ''mermaid'' @ [CHR 0x0A] \<and> fence = [CHR 0x60, CHR 0x60, CHR 0x60]
       \<and> extractMermaidBlocks (fence @ ''mermaid '' @ [CHR 0x0A] @ ''A'' @ [CHR 0x0A] @ fence) = []
       \<and> extractMermaidBlocks (fence @ ''mermaid title'' @ [CHR 0x0A] @ ''A'' @ [CHR 0x0A] @ fence) = []
       \<and> extractMermaidBlocks (openFence @ ''A'' @ fence @ ''B'' @ [CHR 0x0A] @ fence)
            = [\<lparr>code = ''A'', startIndex = 0, endIndex = 15\<rparr>]"
proof -
  from assms obtain body n where m: "matchAt markdown (startIndex b) = Some (body, n)"
    and c: "code b = trim body" and e: "endIndex b = startIndex b + n"
    using extractFrom_matchAt[of b markdown 0] by (auto simp: extractMermaidBlocks_def)
  from matchAt_Some[OF m] have n: "n = length openFence + length body + length fence"
    and le: "startIndex b + n \<le> length markdown" by simp_all
  have 1: "\<exists>body. take (endIndex b - startIndex b) (drop (startIndex b) markdown)
                   = openFence @ body @ fence
               \<and> endIndex b = startIndex b + length openFence + length body + length fence
               \<and> code b = trim body
               \<and> (\<forall>j<length body.
                     \<not> prefix fence (drop (startIndex b + length openFence + j) markdown))"
    using matchAt_text[OF m] c e n by (intro exI[of _ body]) simp
  have 2: "extractMermaidBlocks (fence @ ''mermaid '' @ [CHR 0x0A] @ ''A'' @ [CHR 0x0A] @ fence) = []"
    by code_simp
  have 3: "extractMermaidBlocks (fence @ ''mermaid title'' @ [CHR 0x0A] @ ''A'' @ [CHR 0x0A] @ fence) = []"
    by code_simp
  have 4: "extractMermaidBlocks (openFence @ ''A'' @ fence @ ''B'' @ [CHR 0x0A] @ fence)
            = [\<lparr>code = ''A'', startIndex = 0, endIndex = 15\<rparr>]"
    by code_simp
  have 5: "openFence = fence @ ''mermaid'' @ [CHR 0x0A]" "fence = [CHR 0x60, CHR 0x60, CHR 0x60]"
    by (simp_all add: openFence_def fence_def numeral_3_eq_3)
  have 6: "endIndex b \<le> length markdown" using e le by simp
  show ?thesis by (intro conjI 1 2 3 4 5 6)
qed

theorem scanner_recognizes_witness:
  "(\<exists>body. take (endIndex \<lparr>code = ''A'', startIndex = 0, endIndex = 15\<rparr>
                     - startIndex \<lparr>code = ''A'', startIndex = 0, endIndex = 15\<rparr>)
               (drop (startIndex \<lparr>code = ''A'', startIndex = 0, endIndex = 15\<rparr>)
                  (openFence @ ''A'' @ fence @ ''B'' @ [CHR 0x0A] @ fence))
             = openFence @ body @ fence
         \<and> code \<lparr>code = ''A'', startIndex = 0, endIndex = 15\<rparr> = trim body)
   \<and> extractMermaidBlocks (fence @ ''mermaid '' @ [CHR 0x0A] @ ''A'' @ [CHR 0x0A] @ fence) = []"
proof -
  have m: "\<lparr>code = ''A'', startIndex = 0, endIndex = 15\<rparr>
      \<in> set (extractMermaidBlocks (openFence @ ''A'' @ fence @ ''B'' @ [CHR 0x0A] @ fence))"
    by code_simp
  from scanner_recognizes[OF m] show ?thesis by blast
qed

section \<open>The rewriter\<close>

lemma blocksFrom_extractFrom:
  "i \<le> length markdown \<Longrightarrow> blocksFrom i (extractFrom markdown i) (length markdown)"
proof (induction markdown i rule: extractFrom.induct)
  case (1 markdown lastIndex)
  show ?case
  proof (cases "execFrom markdown lastIndex")
    case None
    then show ?thesis using 1(2) by (simp add: extractFrom.simps[of markdown lastIndex])
  next
    case (Some m)
    obtain idx body n where m: "m = (idx, body, n)" by (cases m)
    have ex: "execFrom markdown lastIndex = Some (idx, body, n)" using Some m by simp
    from execFrom_bound[OF ex] have b: "lastIndex \<le> idx" "14 \<le> n" "idx + n \<le> length markdown"
      by (simp_all add: fence_length)
    have "blocksFrom (idx + n) (extractFrom markdown (idx + n)) (length markdown)"
      using 1(1)[OF ex] b by simp
    then show ?thesis using b by (simp add: extractFrom.simps[of markdown lastIndex] ex)
  qed
qed

lemma blocksFrom_extract: "blocksFrom 0 (extractMermaidBlocks markdown) (length markdown)"
  by (simp add: extractMermaidBlocks_def blocksFrom_extractFrom)

lemma blocksFrom_le: "blocksFrom pos bs len \<Longrightarrow> pos \<le> lastEnd pos bs \<and> lastEnd pos bs \<le> len"
  by (induction bs arbitrary: pos) fastforce+

lemma blocksFrom_append:
  "blocksFrom pos (bs @ cs) len \<longleftrightarrow> blocksFrom pos bs (lastEnd pos bs) \<and> blocksFrom (lastEnd pos bs) cs len"
  by (induction bs arbitrary: pos) auto

lemma outcomes_length: "length (outcomes env w bs) = length bs"
  by (induction bs arbitrary: w) simp_all

lemma substring_0: "0 \<le> a \<Longrightarrow> substring s 0 a = take (nat a) s"
  by (simp add: substring_def clampIndex_def Let_def min_def)

lemma substringFrom_nat: "substringFrom s a = drop (nat a) s"
  by (simp add: substringFrom_def clampIndex_def min_def)

lemma preprocessLoop_state:
  assumes "blocksFrom pos bs (length markdown)"
    and "int (length pre) = int pos + off"
  shows "\<exists>w'. preprocessLoop env bs (pre @ drop pos markdown, off, w)
          = (pre @ spec_prefix markdown pos (zip bs (outcomes env w bs))
               @ drop (lastEnd pos bs) markdown,
             off + sum_list (map2 drift bs (outcomes env w bs)), w')"
  using assms
proof (induction bs arbitrary: pos pre off w)
  case Nil
  then show ?case by simp
next
  case (Cons b bs)
  let ?s = "startIndex b" and ?e = "endIndex b"
  from Cons.prems(1) have ord: "pos \<le> ?s" "?s < ?e" and rest: "blocksFrom ?e bs (length markdown)"
    by simp_all
  from blocksFrom_le[OF rest] have le: "?e \<le> length markdown" by simp
  obtain r w1 where rb: "renderBlock env w b = (r, w1)" by (cases "renderBlock env w b")
  let ?gap = "take (?s - pos) (drop pos markdown)"
  have gap_len: "length ?gap = ?s - pos" using ord le by simp
  show ?case
  proof (cases r)
    case (Inl err)
    let ?pre' = "pre @ take (?e - pos) (drop pos markdown)"
    have split: "take (?e - pos) (drop pos markdown)
        = ?gap @ take (?e - ?s) (drop ?s markdown)"
    proof -
      have "?e - pos = (?s - pos) + (?e - ?s)" using ord by simp
      then have "take (?e - pos) (drop pos markdown)
          = ?gap @ take (?e - ?s) (drop (?s - pos) (drop pos markdown))"
        by (simp only: take_add)
      then show ?thesis using ord by simp
    qed
    have same: "pre @ drop pos markdown = ?pre' @ drop ?e markdown"
    proof -
      have "drop pos markdown = take (?e - pos) (drop pos markdown) @ drop (?e - pos) (drop pos markdown)"
        by (rule append_take_drop_id[symmetric])
      then show ?thesis using ord by simp
    qed
    have len: "int (length ?pre') = int ?e + off" using Cons.prems(2) ord le by simp
    from Cons.IH[OF rest len, of w1] obtain w' where
      ih: "preprocessLoop env bs (?pre' @ drop ?e markdown, off, w1)
          = (?pre' @ spec_prefix markdown ?e (zip bs (outcomes env w1 bs))
               @ drop (lastEnd ?e bs) markdown,
             off + sum_list (map2 drift bs (outcomes env w1 bs)), w')" by blast
    have "preprocessLoop env (b # bs) (pre @ drop pos markdown, off, w)
        = preprocessLoop env bs (?pre' @ drop ?e markdown, off, w1)"
      using rb Inl same by simp
    then show ?thesis
      using ih rb Inl split by (simp add: piece_def drift_def)
  next
    case (Inr img)
    let ?pre' = "pre @ ?gap @ img"
    let ?off' = "off + (int (length img) - (int ?e - int ?s))"
    let ?res = "pre @ drop pos markdown"
    have a: "nat (int ?s + off) = length pre + (?s - pos)" using Cons.prems(2) ord by simp
    have b: "nat (int ?e + off) = length pre + (?e - pos)" using Cons.prems(2) ord by simp
    have 1: "substring ?res 0 (int ?s + off) = pre @ ?gap"
      using Cons.prems(2) ord by (simp add: substring_0 a)
    have 2: "substringFrom ?res (int ?e + off) = drop ?e markdown"
      using ord by (simp add: substringFrom_nat b)
    have len: "int (length ?pre') = int ?e + ?off'" using Cons.prems(2) ord le by simp
    from Cons.IH[OF rest len, of w1] obtain w' where
      ih: "preprocessLoop env bs (?pre' @ drop ?e markdown, ?off', w1)
          = (?pre' @ spec_prefix markdown ?e (zip bs (outcomes env w1 bs))
               @ drop (lastEnd ?e bs) markdown,
             ?off' + sum_list (map2 drift bs (outcomes env w1 bs)), w')" by blast
    have "preprocessLoop env (b # bs) (?res, off, w)
        = preprocessLoop env bs (?pre' @ drop ?e markdown, ?off', w1)"
      using rb Inr 1 2 by (simp add: Let_def)
    then show ?thesis
      using ih rb Inr by (simp add: piece_def drift_def)
  qed
qed










lemma example_blocks:
  "extractMermaidBlocks exampleMarkdown
     = [\<lparr>code = ''A'', startIndex = 1, endIndex = 16\<rparr>,
        \<lparr>code = ''B'', startIndex = 17, endIndex = 32\<rparr>]"
  by code_simp



lemma blocksFrom_mono: "blocksFrom pos bs len \<Longrightarrow> len \<le> len' \<Longrightarrow> blocksFrom pos bs len'"
  by (induction bs arbitrary: pos) auto

lemma blocksFrom_mem:
  "blocksFrom pos bs len \<Longrightarrow> b \<in> set bs \<Longrightarrow>
     pos \<le> startIndex b \<and> startIndex b < endIndex b \<and> endIndex b \<le> len"
proof (induction bs arbitrary: pos)
  case Nil
  then show ?case by simp
next
  case (Cons a bs)
  from Cons.prems(1) have a: "pos \<le> startIndex a" "startIndex a < endIndex a"
    and rest: "blocksFrom (endIndex a) bs len" by simp_all
  from blocksFrom_le[OF rest] have le: "endIndex a \<le> len" by simp
  show ?case
  proof (cases "b = a")
    case True
    then show ?thesis using a le by simp
  next
    case False
    then have "b \<in> set bs" using Cons.prems(2) by simp
    from Cons.IH[OF rest this] show ?thesis using a by simp
  qed
qed

lemma blocksFrom_sorted:
  "blocksFrom pos bs len \<Longrightarrow> i < j \<Longrightarrow> j < length bs \<Longrightarrow>
     endIndex (bs ! i) \<le> startIndex (bs ! j)"
proof (induction bs arbitrary: pos i j)
  case Nil
  then show ?case by simp
next
  case (Cons a bs)
  from Cons.prems(1) have rest: "blocksFrom (endIndex a) bs len" by simp
  obtain j' where j: "j = Suc j'" using Cons.prems(2) by (cases j) auto
  show ?case
  proof (cases i)
    case 0
    have "bs ! j' \<in> set bs" using Cons.prems(3) j by simp
    from blocksFrom_mem[OF rest this] show ?thesis using 0 j by simp
  next
    case (Suc i')
    then show ?thesis using Cons.IH[OF rest, of i' j'] Cons.prems j by simp
  qed
qed

lemma preprocessLoop_append:
  "preprocessLoop env (xs @ ys) st = preprocessLoop env ys (preprocessLoop env xs st)"
proof (induction xs arbitrary: st)
  case Nil
  then show ?case by simp
next
  case (Cons b xs)
  obtain result offset w where st: "st = (result, offset, w)" by (cases st)
  show ?case unfolding st
    by (cases "renderBlock env w b") (auto simp: Cons.IH Let_def split: sum.splits)
qed

lemma spec_prefix_length:
  "blocksFrom pos bs (length markdown) \<Longrightarrow> length rs = length bs \<Longrightarrow>
     int (length (spec_prefix markdown pos (zip bs rs)))
       = int (lastEnd pos bs) - int pos + sum_list (map2 drift bs rs)"
proof (induction bs arbitrary: pos rs)
  case Nil
  then show ?case by simp
next
  case (Cons b bs)
  from Cons.prems(2) obtain r rs' where rs: "rs = r # rs'" "length rs' = length bs"
    by (cases rs) auto
  from Cons.prems(1) have ord: "pos \<le> startIndex b" "startIndex b < endIndex b"
    and rest: "blocksFrom (endIndex b) bs (length markdown)" by simp_all
  from blocksFrom_le[OF rest] have le: "endIndex b \<le> length markdown" by simp
  have p: "int (length (piece markdown b r)) = int (endIndex b) - int (startIndex b) + drift b r"
    using ord le by (cases r) (simp_all add: piece_def drift_def)
  have g: "length (take (startIndex b - pos) (drop pos markdown)) = startIndex b - pos"
    using ord le by simp
  show ?case
    using Cons.IH[OF rest rs(2)] p g ord unfolding rs by (simp del: length_take)
qed

lemma substring_inside:
  "s \<le> e \<Longrightarrow> e \<le> length t \<Longrightarrow> substring t (int s) (int e) = take (e - s) (drop s t)"
  by (simp add: substring_def clampIndex_def Let_def min_def max_def)

text \<open>
  Claim C1. The blocks come in ascending order of their original offsets. After the
  loop has gone through the first \<open>k\<close> of them, \<open>offset\<close> is the sum, over
  these \<open>k\<close> blocks, of the replacement's length minus the replaced span's length
  (nothing for a block left alone), and the text is longer than the original by
  exactly \<open>offset\<close>. For every block \<open>j\<close> still to come, the span from
  \<open>startIndex + offset\<close> to \<open>endIndex + offset\<close> lies inside the changed text
  and holds what the block's original span holds in the original text, so the stored
  offsets of the later blocks stay valid; the loop goes on from this state.
\<close>

theorem stored_offsets_stay_valid:
  assumes "blocks = extractMermaidBlocks markdown"
    and "k \<le> j" "j < length blocks"
    and "preprocessLoop env (take k blocks) (markdown, 0, w) = (result, offset, w')"
  shows "offset = sum_list (map2 drift (take k blocks) (outcomes env w (take k blocks)))
       \<and> int (length result) = int (length markdown) + offset
       \<and> 0 \<le> int (startIndex (blocks ! j)) + offset
       \<and> int (endIndex (blocks ! j)) + offset \<le> int (length result)
       \<and> substring result (int (startIndex (blocks ! j)) + offset)
                           (int (endIndex (blocks ! j)) + offset)
           = substring markdown (int (startIndex (blocks ! j))) (int (endIndex (blocks ! j)))
       \<and> (\<forall>i<j. endIndex (blocks ! i) \<le> startIndex (blocks ! j))
       \<and> preprocessLoop env blocks (markdown, 0, w)
           = preprocessLoop env (drop k blocks) (result, offset, w')"
proof -
  let ?done = "take k blocks" and ?todo = "drop k blocks"
  let ?E = "lastEnd 0 ?done"
  let ?outs = "outcomes env w ?done"
  let ?P = "spec_prefix markdown 0 (zip ?done ?outs)"
  let ?s = "startIndex (blocks ! j)" and ?e = "endIndex (blocks ! j)"
  have all: "blocksFrom 0 blocks (length markdown)"
    unfolding assms(1) by (rule blocksFrom_extract)
  then have "blocksFrom 0 (?done @ ?todo) (length markdown)" by simp
  then have d: "blocksFrom 0 ?done ?E" and t: "blocksFrom ?E ?todo (length markdown)"
    unfolding blocksFrom_append by simp_all
  from blocksFrom_le[OF t] have E: "?E \<le> length markdown" by simp
  from blocksFrom_mono[OF d E] have d': "blocksFrom 0 ?done (length markdown)" .
  from preprocessLoop_state[where pos=0 and pre="[]" and off=0 and markdown=markdown
      and bs="?done" and env=env and w=w, OF d']
  have res: "result = ?P @ drop ?E markdown" and off: "offset = sum_list (map2 drift ?done ?outs)"
    using assms(4) by auto
  have lenP: "int (length ?P) = int ?E + offset"
    using spec_prefix_length[OF d', of ?outs] off by (simp add: outcomes_length)
  have len: "int (length result) = int (length markdown) + offset"
    using lenP E unfolding res by simp
  have "?todo ! (j - k) = blocks ! j" using assms(2,3) by simp
  moreover have "j - k < length ?todo" using assms(2,3) by simp
  ultimately have "blocks ! j \<in> set ?todo" by (metis nth_mem)
  from blocksFrom_mem[OF t this] have b: "?E \<le> ?s" "?s < ?e" "?e \<le> length markdown"
    by simp_all
  have pos: "0 \<le> int ?s + offset" using lenP b(1) by linarith
  have up: "int ?e + offset \<le> int (length result)" using len b(3) by simp
  have ns: "nat (int ?s + offset) = length ?P + (?s - ?E)" using lenP b(1) by linarith
  have ne: "nat (int ?e + offset) = length ?P + (?e - ?E)" using lenP b(1,2) by linarith
  have "substring result (int ?s + offset) (int ?e + offset)
      = substring result (int (nat (int ?s + offset))) (int (nat (int ?e + offset)))"
    using pos b(2) by simp
  also have "\<dots> = take (nat (int ?e + offset) - nat (int ?s + offset))
                      (drop (nat (int ?s + offset)) result)"
    using up pos b(2) by (intro substring_inside) linarith+
  also have "\<dots> = take (?e - ?s) (drop (?s - ?E) (drop ?E markdown))"
    unfolding ns ne res using b(1,2) by simp
  also have "\<dots> = take (?e - ?s) (drop ?s markdown)" using b(1) by simp
  also have "\<dots> = substring markdown (int ?s) (int ?e)"
    using b(2,3) by (simp add: substring_inside)
  finally have sub: "substring result (int ?s + offset) (int ?e + offset)
      = substring markdown (int ?s) (int ?e)" .
  have asc: "\<forall>i<j. endIndex (blocks ! i) \<le> startIndex (blocks ! j)"
    using blocksFrom_sorted[OF all _ assms(3)] by blast
  have "preprocessLoop env (?done @ ?todo) (markdown, 0, w)
      = preprocessLoop env ?todo (preprocessLoop env ?done (markdown, 0, w))"
    by (rule preprocessLoop_append)
  then have comp: "preprocessLoop env blocks (markdown, 0, w)
      = preprocessLoop env ?todo (result, offset, w')"
    using assms(4) by simp
  show ?thesis by (intro conjI off len pos up sub asc comp)
qed
lemma example_after_first:
  "preprocessLoop exampleEnv (take 1 (extractMermaidBlocks exampleMarkdown))
       (exampleMarkdown, 0, exampleWorld)
     = (''x'' @ imgMarkdown ''PNG'' @ ''y'' @ openFence @ ''B'' @ fence @ ''z'', 35,
        snd (snd (preprocessLoop exampleEnv (take 1 (extractMermaidBlocks exampleMarkdown))
          (exampleMarkdown, 0, exampleWorld))))"
proof -
  have "fst (preprocessLoop exampleEnv (take 1 (extractMermaidBlocks exampleMarkdown))
       (exampleMarkdown, 0, exampleWorld))
      = ''x'' @ imgMarkdown ''PNG'' @ ''y'' @ openFence @ ''B'' @ fence @ ''z''"
    by code_simp
  moreover have "fst (snd (preprocessLoop exampleEnv (take 1 (extractMermaidBlocks exampleMarkdown))
       (exampleMarkdown, 0, exampleWorld))) = 35"
    by code_simp
  ultimately show ?thesis by (metis prod.collapse)
qed

lemma example_second_span:
  "substring exampleMarkdown (int 17) (int 32) = openFence @ ''B'' @ fence"
  by code_simp

theorem stored_offsets_stay_valid_witness:
  "substring (''x'' @ imgMarkdown ''PNG'' @ ''y'' @ openFence @ ''B'' @ fence @ ''z'')
      (int 17 + 35) (int 32 + 35)
     = openFence @ ''B'' @ fence
   \<and> int (length (''x'' @ imgMarkdown ''PNG'' @ ''y'' @ openFence @ ''B'' @ fence @ ''z''))
       = int (length exampleMarkdown) + 35"
proof -
  let ?blocks = "extractMermaidBlocks exampleMarkdown"
  have j: "(1::nat) \<le> 1" "1 < length ?blocks" by (simp_all add: example_blocks)
  have b: "startIndex (?blocks ! 1) = 17" "endIndex (?blocks ! 1) = 32"
    by (simp_all add: example_blocks)
  note t = stored_offsets_stay_valid[OF refl j example_after_first]
  from t have "substring (''x'' @ imgMarkdown ''PNG'' @ ''y'' @ openFence @ ''B'' @ fence @ ''z'')
      (int (startIndex (?blocks ! 1)) + 35) (int (endIndex (?blocks ! 1)) + 35)
     = substring exampleMarkdown (int (startIndex (?blocks ! 1))) (int (endIndex (?blocks ! 1)))"
    by blast
  then have 1: "substring (''x'' @ imgMarkdown ''PNG'' @ ''y'' @ openFence @ ''B'' @ fence @ ''z'')
      (int 17 + 35) (int 32 + 35) = openFence @ ''B'' @ fence"
    unfolding b example_second_span .
  from t have 2: "int (length (''x'' @ imgMarkdown ''PNG'' @ ''y'' @ openFence @ ''B'' @ fence @ ''z''))
       = int (length exampleMarkdown) + 35"
    by blast
  show ?thesis by (intro conjI 1 2)
qed

section \<open>The render cache\<close>

lemma render_Inr_path:
  "renderMermaidToPng env w source = (Inr p, w1) \<Longrightarrow>
     p = pathJoin env [tempDir env, md5Hex env source @ ''.png'']
     \<and> existsSync (files w1) p
     \<and> (spawned w1 = spawned w \<or> (\<exists>call. spawned w1 = spawned w @ [call]))"
  unfolding renderMermaidToPng_def Let_def
  by (auto split: if_splits sum.splits processResult.splits)

lemma render_hit:
  "existsSync (files w) (pathJoin env [tempDir env, md5Hex env source @ ''.png'']) \<Longrightarrow>
     renderMermaidToPng env w source
       = (Inr (pathJoin env [tempDir env, md5Hex env source @ ''.png'']), w)"
  by (simp add: renderMermaidToPng_def Let_def)

text \<open>
  Claim C3, as amended. The image path of a diagram is a function of its trimmed
  source alone: two blocks with the same code, from any documents, at any positions
  and in any state of the world, render to the same path, named by the hash. When a
  call of \<open>renderMermaidToPng\<close> succeeds, the image is there afterwards, and a
  second call with the same source returns the same path at once: it leaves the world
  as it is and spawns nothing, so the two calls together spawn the renderer at most
  once.
\<close>

theorem second_resolve_hits_cache:
  assumes "renderMermaidToPng env w source = (Inr p, w1)"
  shows "renderMermaidToPng env w1 source = (Inr p, w1)
       \<and> existsSync (files w1) p
       \<and> length (spawned w1) \<le> length (spawned w) + 1
       \<and> (b1 \<in> set (extractMermaidBlocks markdown1) \<and> b2 \<in> set (extractMermaidBlocks markdown2)
            \<and> code b1 = code b2
            \<and> renderMermaidToPng env wa (code b1) = (Inr p1, wa')
            \<and> renderMermaidToPng env wb (code b2) = (Inr p2, wb')
          \<longrightarrow> p1 = p2 \<and> p1 = pathJoin env [tempDir env, md5Hex env (code b1) @ ''.png''])"
proof -
  from render_Inr_path[OF assms]
  have p: "p = pathJoin env [tempDir env, md5Hex env source @ ''.png'']"
    and ex: "existsSync (files w1) p"
    and sp: "spawned w1 = spawned w \<or> (\<exists>call. spawned w1 = spawned w @ [call])"
    by blast+
  have 1: "renderMermaidToPng env w1 source = (Inr p, w1)"
    using render_hit[of w1 env source] ex unfolding p by simp
  have 2: "length (spawned w1) \<le> length (spawned w) + 1" using sp by auto
  have 3: "b1 \<in> set (extractMermaidBlocks markdown1) \<and> b2 \<in> set (extractMermaidBlocks markdown2)
            \<and> code b1 = code b2
            \<and> renderMermaidToPng env wa (code b1) = (Inr p1, wa')
            \<and> renderMermaidToPng env wb (code b2) = (Inr p2, wb')
          \<longrightarrow> p1 = p2 \<and> p1 = pathJoin env [tempDir env, md5Hex env (code b1) @ ''.png'']"
    using render_Inr_path[of env wa "code b1" p1 wa'] render_Inr_path[of env wb "code b2" p2 wb']
    by auto
  show ?thesis by (intro conjI 1 ex 2 3)
qed

lemma example_render_A:
  "renderMermaidToPng exampleEnv exampleWorld ''A''
     = (Inr ''/tmp/md-docx-mermaid/A.png'',
        snd (renderMermaidToPng exampleEnv exampleWorld ''A''))"
proof -
  have "fst (renderMermaidToPng exampleEnv exampleWorld ''A'') = Inr ''/tmp/md-docx-mermaid/A.png''"
    by code_simp
  then show ?thesis by (metis prod.collapse)
qed

lemma example_render_A_spawned:
  "spawned (snd (renderMermaidToPng exampleEnv exampleWorld ''A''))
     = [(''/app/node_modules/.bin/mmdc'',
         [''-i'', ''/tmp/md-docx-mermaid/A.mmd'', ''-o'', ''/tmp/md-docx-mermaid/A.png'',
          ''-b'', ''white'', ''-s'', ''2''])]"
  by code_simp

theorem second_resolve_hits_cache_witness:
  "fst (renderMermaidToPng exampleEnv (snd (renderMermaidToPng exampleEnv exampleWorld ''A'')) ''A'')
     = Inr ''/tmp/md-docx-mermaid/A.png''
   \<and> spawned (snd (renderMermaidToPng exampleEnv
         (snd (renderMermaidToPng exampleEnv exampleWorld ''A'')) ''A''))
       = [(''/app/node_modules/.bin/mmdc'',
           [''-i'', ''/tmp/md-docx-mermaid/A.mmd'', ''-o'', ''/tmp/md-docx-mermaid/A.png'',
            ''-b'', ''white'', ''-s'', ''2''])]"
proof -
  from second_resolve_hits_cache[OF example_render_A]
  have "renderMermaidToPng exampleEnv (snd (renderMermaidToPng exampleEnv exampleWorld ''A'')) ''A''
      = (Inr ''/tmp/md-docx-mermaid/A.png'', snd (renderMermaidToPng exampleEnv exampleWorld ''A''))"
    by (rule conjunct1)
  then show ?thesis by (simp add: example_render_A_spawned)
qed

text \<open>
  A failed render is not remembered: with a renderer that fails on a diagram, two
  calls with that same source both fail and spawn the renderer twice.
\<close>

theorem failed_render_runs_again_counterexample:
  "fst (renderMermaidToPng exampleEnv exampleWorld ''B'')
     = Inl (Error ''Mermaid rendering failed: Parse error'')
   \<and> fst (renderMermaidToPng exampleEnv (snd (renderMermaidToPng exampleEnv exampleWorld ''B'')) ''B'')
     = Inl (Error ''Mermaid rendering failed: Parse error'')
   \<and> length (spawned exampleWorld) = 0
   \<and> length (spawned (snd (renderMermaidToPng exampleEnv
         (snd (renderMermaidToPng exampleEnv exampleWorld ''B'')) ''B''))) = 2"
  by code_simp

section \<open>The conversions\<close>

lemma arraySort_Nil: "arraySort cmp [] = []"
  by (simp add: arraySort_def)

lemma convertDirectory_missing:
  "\<not> existsSync (files w) (pathResolve env inputDir) \<Longrightarrow>
     convertDirectory env options w inputDir outputPath
       = (Inl (Error (''Input directory not found: '' @ pathResolve env inputDir)), w)"
  by (simp add: convertDirectory_def Let_def)

lemma convertDirectory_file:
  "files w (pathResolve env inputDir) = Some (File c) \<Longrightarrow>
     convertDirectory env options w inputDir outputPath
       = (Inl (Error (''Not a directory: '' @ pathResolve env inputDir)), w)"
  by (simp add: convertDirectory_def Let_def existsSync_def statIsDirectory_def)

lemma convertDirectory_no_markdown:
  "files w (pathResolve env inputDir) = Some (Dir entries) \<Longrightarrow> filter endsWithMd entries = [] \<Longrightarrow>
     convertDirectory env options w inputDir outputPath
       = (Inl (Error (''No markdown files found in: '' @ pathResolve env inputDir)), w)"
  by (simp add: convertDirectory_def Let_def existsSync_def statIsDirectory_def readdirSync_def
      arraySort_Nil)

lemma convertFiles_none:
  "convertFiles env options w [] outputPath = (Inl (Error ''No input files provided''), w)"
  by (simp add: convertFiles_def)

lemma readListed_missing:
  "\<forall>q\<in>set before. \<exists>c. f (pathResolve env q) = Some (File c) \<Longrightarrow>
   \<not> existsSync f (pathResolve env p) \<Longrightarrow>
     readListed env f (before @ p # after)
       = Inl (Error (''Input file not found: '' @ pathResolve env p))"
proof (induction before)
  case Nil
  then show ?case by (simp add: Let_def)
next
  case (Cons q before)
  from Cons.prems(1) obtain c where c: "f (pathResolve env q) = Some (File c)" by auto
  have "readListed env f (before @ p # after)
       = Inl (Error (''Input file not found: '' @ pathResolve env p))"
    using Cons by simp
  then show ?case using c by (simp add: Let_def existsSync_def readFileSync_def)
qed

lemma convertFiles_missing:
  "\<forall>q\<in>set before. \<exists>c. files w (pathResolve env q) = Some (File c) \<Longrightarrow>
   \<not> existsSync (files w) (pathResolve env p) \<Longrightarrow>
     convertFiles env options w (before @ p # after) outputPath
       = (Inl (Error (''Input file not found: '' @ pathResolve env p)), w)"
  by (simp add: convertFiles_def Let_def readListed_missing)

text \<open>
  Claim C6. \<open>convertDirectory\<close> fails with \<open>Input directory not found\<close> when the
  resolved path does not exist, with \<open>Not a directory\<close> when it is a file, and with
  \<open>No markdown files found\<close> when it is a directory none of whose entries ends in
  \<open>.md\<close>. \<open>convertFiles\<close> fails with \<open>No input files provided\<close> on
  the empty list, and with \<open>Input file not found\<close>, naming the resolved path, at the
  first listed path that does not exist when the paths before it are files. Each of
  these errors names the offending path and comes with the world unchanged: nothing
  was rendered, created or written.
\<close>

theorem preconditions_fail_before_output:
  "(\<not> existsSync (files w) (pathResolve env inputDir) \<longrightarrow>
      convertDirectory env options w inputDir outputPath
        = (Inl (Error (''Input directory not found: '' @ pathResolve env inputDir)), w))
   \<and> ((\<exists>c. files w (pathResolve env inputDir) = Some (File c)) \<longrightarrow>
      convertDirectory env options w inputDir outputPath
        = (Inl (Error (''Not a directory: '' @ pathResolve env inputDir)), w))
   \<and> ((\<exists>entries. files w (pathResolve env inputDir) = Some (Dir entries)
          \<and> filter endsWithMd entries = []) \<longrightarrow>
      convertDirectory env options w inputDir outputPath
        = (Inl (Error (''No markdown files found in: '' @ pathResolve env inputDir)), w))
   \<and> convertFiles env options w [] outputPath = (Inl (Error ''No input files provided''), w)
   \<and> ((\<forall>q\<in>set before. \<exists>c. files w (pathResolve env q) = Some (File c))
        \<and> \<not> existsSync (files w) (pathResolve env p) \<longrightarrow>
      convertFiles env options w (before @ p # after) outputPath
        = (Inl (Error (''Input file not found: '' @ pathResolve env p)), w))"
  using convertDirectory_missing[of w env inputDir options outputPath]
    convertDirectory_file[of w env inputDir _ options outputPath]
    convertDirectory_no_markdown[of w env inputDir _ options outputPath]
    convertFiles_none[of env options w outputPath]
    convertFiles_missing[of before w env p options after outputPath]
  by blast

lemma example_resolve: "pathResolve exampleEnv p = p"
  by (simp add: exampleEnv_def)

lemma example_files:
  "files exampleWorld ''/nowhere'' = None"
  "files exampleWorld ''/nowhere.md'' = None"
  "files exampleWorld ''/docs/a.md'' = Some (File ''# A'')"
  "files exampleWorld ''/empty'' = Some (Dir [''notes.txt''])"
  by (simp_all add: exampleWorld_def)

lemma example_no_markdown: "\<not> endsWithMd ''notes.txt''"
  by (simp add: endsWithMd_def suffix_to_prefix)

theorem preconditions_fail_before_output_witness:
  "convertDirectory exampleEnv exampleOptions exampleWorld ''/nowhere'' ''/out/all.docx''
     = (Inl (Error ''Input directory not found: /nowhere''), exampleWorld)
   \<and> convertDirectory exampleEnv exampleOptions exampleWorld ''/docs/a.md'' ''/out/all.docx''
     = (Inl (Error ''Not a directory: /docs/a.md''), exampleWorld)
   \<and> convertDirectory exampleEnv exampleOptions exampleWorld ''/empty'' ''/out/all.docx''
     = (Inl (Error ''No markdown files found in: /empty''), exampleWorld)
   \<and> convertFiles exampleEnv exampleOptions exampleWorld [] ''/out/all.docx''
     = (Inl (Error ''No input files provided''), exampleWorld)
   \<and> convertFiles exampleEnv exampleOptions exampleWorld
        [''/docs/a.md'', ''/nowhere.md'', ''/docs/a.md''] ''/out/all.docx''
     = (Inl (Error ''Input file not found: /nowhere.md''), exampleWorld)"
proof -
  note t1 = preconditions_fail_before_output[of exampleWorld exampleEnv "''/nowhere''"
      exampleOptions "''/out/all.docx''" "[]" "''/nowhere''" "[]"]
  note t2 = preconditions_fail_before_output[of exampleWorld exampleEnv "''/docs/a.md''"
      exampleOptions "''/out/all.docx''" "[]" "''/nowhere''" "[]"]
  note t3 = preconditions_fail_before_output[of exampleWorld exampleEnv "''/empty''"
      exampleOptions "''/out/all.docx''" "[''/docs/a.md'']" "''/nowhere.md''" "[''/docs/a.md'']"]
  have 1: "convertDirectory exampleEnv exampleOptions exampleWorld ''/nowhere'' ''/out/all.docx''
     = (Inl (Error ''Input directory not found: /nowhere''), exampleWorld)"
    using t1 by (simp add: example_resolve example_files existsSync_def)
  have 2: "convertDirectory exampleEnv exampleOptions exampleWorld ''/docs/a.md'' ''/out/all.docx''
     = (Inl (Error ''Not a directory: /docs/a.md''), exampleWorld)"
    using t2 by (simp add: example_resolve example_files existsSync_def)
  have 3: "convertDirectory exampleEnv exampleOptions exampleWorld ''/empty'' ''/out/all.docx''
     = (Inl (Error ''No markdown files found in: /empty''), exampleWorld)"
    using t3 by (simp add: example_resolve example_files existsSync_def example_no_markdown)
  have 4: "convertFiles exampleEnv exampleOptions exampleWorld [] ''/out/all.docx''
     = (Inl (Error ''No input files provided''), exampleWorld)"
    using t3 by blast
  have 5: "convertFiles exampleEnv exampleOptions exampleWorld
        [''/docs/a.md'', ''/nowhere.md'', ''/docs/a.md''] ''/out/all.docx''
     = (Inl (Error ''Input file not found: /nowhere.md''), exampleWorld)"
    using t3 by (simp add: example_resolve example_files existsSync_def)
  show ?thesis by (intro conjI 1 2 3 4 5)
qed



















section \<open>The order of the document set\<close>













































end
